theory Spec2Isabelle
  imports Complex_Main
begin

section \<open>Wikimedia EventStreams consumer: \<open>stream_processing.py\<close>\<close>

text \<open>
  A shallow embedding of \<open>run_stream\<close> and its helpers. The body of the \<open>for\<close>
  loop over the lines of the stream is a function from the state before a line to the
  state after it; the \<open>while True\<close> loop with its \<open>try\<close>/\<open>except\<close> is a step
  function on a state that records where control is. Every call of a writer
  (\<open>append_metrics_row\<close>, \<open>write_snapshot\<close>, \<open>log_alert\<close>, \<open>print\<close>) is recorded,
  in order, in the state.
\<close>

subsection \<open>Python values\<close>

text \<open>
  What \<open>json.loads\<close> returns. A JSON number with a fraction or an exponent becomes a
  Python \<open>float\<close>; floats are not represented, the feed's timestamps are integers.
  A \<open>dict\<close> is the list of its items, each key once.
\<close>

datatype pyval =
    PNone
  | PBool bool
  | PInt int
  | PStr string
  | PList "pyval list"
  | PDict "(string \<times> pyval) list"

text \<open>The exceptions that reach the model. \<open>RangeError\<close> stands for the
  \<open>ValueError\<close>, \<open>OverflowError\<close> or \<open>OSError\<close> that \<open>datetime.fromtimestamp\<close>
  raises for a timestamp outside the years 1 to 9999.\<close>

datatype py_error = AttributeError | TypeError | KeyError | RangeError | KeyboardInterrupt

text \<open>\<open>d.get(k)\<close>: the value, \<open>None\<close> for a missing key.\<close>

definition dict_get :: "(string \<times> pyval) list \<Rightarrow> string \<Rightarrow> pyval" where
  "dict_get kvs k = (case map_of kvs k of None \<Rightarrow> PNone | Some v \<Rightarrow> v)"

text \<open>Truth value of an object, as \<open>x or ""\<close> tests it.\<close>

fun truthy :: "pyval \<Rightarrow> bool" where
  "truthy PNone = False"
| "truthy (PBool b) = b"
| "truthy (PInt n) = (n \<noteq> 0)"
| "truthy (PStr s) = (s \<noteq> [])"
| "truthy (PList xs) = (xs \<noteq> [])"
| "truthy (PDict kvs) = (kvs \<noteq> [])"

definition or_empty :: "pyval \<Rightarrow> pyval" where
  "or_empty v = (if truthy v then v else PStr [])"

text \<open>\<open>x[:200]\<close>: strings and lists are sliced, anything else raises.\<close>

fun slice200 :: "pyval \<Rightarrow> py_error + pyval" where
  "slice200 (PStr s) = Inr (PStr (take 200 s))"
| "slice200 (PList xs) = Inr (PList (take 200 xs))"
| "slice200 v = Inl TypeError"

subsection \<open>Configuration\<close>

text \<open>\<open>TRACKED_TITLES\<close> is a set in the source; the list gives its elements in the
  order of the source text. Only a flush iterates over it.\<close>

definition TRACKED_TITLES :: "string list" where
  "TRACKED_TITLES =
     [''United States'', ''Donald Trump'', ''Elon Musk'', ''YouTube'', ''Wikipedia'']"

definition ALERT_WINDOW_SECONDS :: int where
  "ALERT_WINDOW_SECONDS = 60 * 30"

definition ALERT_COUNT :: nat where
  "ALERT_COUNT = 5"

definition FLUSH_EVERY_SECONDS :: real where
  "FLUSH_EVERY_SECONDS = 20"

subsection \<open>Metrics, writers and the state\<close>

text \<open>\<open>IsoUtc ts\<close> is the string
  \<open>datetime.fromtimestamp(ts, tz=timezone.utc).isoformat()\<close>.\<close>

datatype iso_time = IsoUtc int

record entity_metrics =
  total_edits :: int
  last_edit_utc :: "iso_time option"
  last_user :: pyval
  last_comment :: pyval

type_synonym metrics_map = "string \<rightharpoonup> entity_metrics"

text \<open>A row of \<open>metrics.csv\<close> without its first column, the wall-clock time of the
  write. An empty \<open>last_edit_utc\<close> cell is \<open>None\<close>.\<close>

record csv_row =
  row_title :: string
  row_total_edits :: int
  row_last_edit_utc :: "iso_time option"
  row_last_user :: pyval
  row_last_comment :: pyval

text \<open>The calls of the writers. \<open>LogAlert msg\<close> is the line \<open>[iso_now()] msg\<close>
  appended to \<open>alerts.log\<close>.\<close>

datatype effect =
    WriteCsvHeader
  | AppendMetricsRow csv_row
  | WriteSnapshot metrics_map
  | LogAlert string
  | Print string

text \<open>Where control is in \<open>run_stream\<close>: in \<open>requests.get\<close> or
  \<open>raise_for_status\<close>, waiting for the next line of \<open>iter_lines\<close>, in
  \<open>time.sleep(5)\<close> of the handler of a transport error, after the \<open>break\<close>, or
  left by an exception that no handler caught.\<close>

datatype phase = Connecting | Streaming | Backoff | Stopped | Crashed py_error

record stream_state =
  phase :: phase
  metrics :: metrics_map
  recent_edits :: "string \<Rightarrow> int list"
  last_flush :: real
  effects :: "effect list"

text \<open>The result of a block of statements: it ran to its end (or to a \<open>continue\<close>),
  or it raised, in the state reached when it raised.\<close>

datatype outcome = Continue stream_state | Raise py_error stream_state

definition append_metrics_row :: "string \<Rightarrow> entity_metrics \<Rightarrow> py_error + csv_row" where
  "append_metrics_row title m =
     (case slice200 (or_empty (last_comment m)) of
        Inl e \<Rightarrow> Inl e
      | Inr c \<Rightarrow> Inr \<lparr>row_title = title,
                      row_total_edits = total_edits m,
                      row_last_edit_utc = last_edit_utc m,
                      row_last_user = or_empty (last_user m),
                      row_last_comment = c\<rparr>)"

definition write_snapshot :: "stream_state \<Rightarrow> stream_state" where
  "write_snapshot st = st\<lparr>effects := effects st @ [WriteSnapshot (metrics st)]\<rparr>"

definition log_alert :: "string \<Rightarrow> stream_state \<Rightarrow> stream_state" where
  "log_alert msg st = st\<lparr>effects := effects st @ [LogAlert msg]\<rparr>"

subsection \<open>Decoding a line (lines 146 to 160)\<close>

text \<open>\<open>str.strip()\<close> on the ASCII white space.\<close>

definition is_space :: "char \<Rightarrow> bool" where
  "is_space c = (let n = (of_char c :: nat) in (9 \<le> n \<and> n \<le> 13) \<or> (28 \<le> n \<and> n \<le> 32))"

definition strip :: "string \<Rightarrow> string" where
  "strip s = rev (dropWhile is_space (rev (dropWhile is_space s)))"

datatype decoded = Skip | Parsed pyval

text \<open>\<open>json_loads\<close> is \<open>json.loads\<close>, with \<open>None\<close> for \<open>JSONDecodeError\<close>.\<close>

definition decode :: "(string \<Rightarrow> pyval option) \<Rightarrow> string \<Rightarrow> decoded" where
  "decode json_loads raw_line =
     (if raw_line = [] then Skip
      else if take 5 raw_line \<noteq> ''data:'' then Skip
      else let data_str = strip (drop 5 raw_line) in
        if data_str = ''[DONE]'' then Skip
        else (case json_loads data_str of
                None \<Rightarrow> Skip
              | Some event \<Rightarrow> Parsed event))"

subsection \<open>The alert window (lines 180 to 192)\<close>

text \<open>\<open>while dq and dq[0] < cutoff: dq.popleft()\<close>\<close>

fun evict_front :: "int \<Rightarrow> int list \<Rightarrow> int list" where
  "evict_front cutoff [] = []"
| "evict_front cutoff (x # xs) = (if x < cutoff then evict_front cutoff xs else x # xs)"

text \<open>The deque after \<open>dq.append(ts)\<close> and the eviction, where the threshold is
  tested.\<close>

definition retained :: "int list \<Rightarrow> int \<Rightarrow> int list" where
  "retained dq ts = evict_front (ts - ALERT_WINDOW_SECONDS) (dq @ [ts])"

text \<open>The count an alert reports, if one is logged, and the deque left behind.\<close>

definition update_alert_window :: "int list \<Rightarrow> int \<Rightarrow> nat option \<times> int list" where
  "update_alert_window dq ts =
     (let dq' = retained dq ts in
      if length dq' \<ge> ALERT_COUNT then (Some (length dq'), []) else (None, dq'))"

text \<open>Decimal digits of a number, for the f-string of the alert.\<close>

fun str_nat :: "nat \<Rightarrow> string" where
  "str_nat n =
     (if n < 10 then [''0123456789'' ! n]
      else str_nat (n div 10) @ [''0123456789'' ! (n mod 10)])"

definition alert_message :: "string \<Rightarrow> nat \<Rightarrow> string" where
  "alert_message title n =
     ''ALERT: '' @ [CHR 0x27] @ title @ [CHR 0x27] @ '' had '' @ str_nat n
       @ '' edits in the last '' @ str_nat (nat (ALERT_WINDOW_SECONDS div 60))
       @ '' minutes.''"

subsection \<open>Handling a decoded event (lines 163 to 200)\<close>

text \<open>\<open>datetime.fromtimestamp(ts, tz=timezone.utc)\<close>: an \<open>int\<close> (a \<open>bool\<close> is
  one) within the years 1 to 9999, else an exception.\<close>

definition fromtimestamp_int :: "int \<Rightarrow> py_error + iso_time" where
  "fromtimestamp_int n =
     (if - 62135596800 \<le> n \<and> n \<le> 253402300799 then Inr (IsoUtc n) else Inl RangeError)"

fun int_of_ts :: "pyval \<Rightarrow> int option" where
  "int_of_ts (PInt n) = Some n"
| "int_of_ts (PBool b) = Some (if b then 1 else 0)"
| "int_of_ts v = None"

text \<open>\<open>int(time.time())\<close> rounds towards zero.\<close>

definition int_of_time :: "real \<Rightarrow> int" where
  "int_of_time t = (if t \<ge> 0 then \<lfloor>t\<rfloor> else \<lceil>t\<rceil>)"

text \<open>\<open>for t in TRACKED_TITLES: append_metrics_row(t, metrics[t])\<close>\<close>

fun append_rows :: "string list \<Rightarrow> stream_state \<Rightarrow> outcome" where
  "append_rows [] st = Continue st"
| "append_rows (t # ts) st =
     (case metrics st t of
        None \<Rightarrow> Raise KeyError st
      | Some m \<Rightarrow>
          (case append_metrics_row t m of
             Inl e \<Rightarrow> Raise e st
           | Inr row \<Rightarrow> append_rows ts (st\<lparr>effects := effects st @ [AppendMetricsRow row]\<rparr>)))"

text \<open>Lines 195 to 200; \<open>now\<close> is what \<open>time.time()\<close> returns on line 195.\<close>

definition flush_if_due :: "stream_state \<Rightarrow> real \<Rightarrow> outcome" where
  "flush_if_due st now =
     (if now - last_flush st \<ge> FLUSH_EVERY_SECONDS then
        (case append_rows TRACKED_TITLES st of
           Raise e st' \<Rightarrow> Raise e st'
         | Continue st' \<Rightarrow> Continue ((write_snapshot st')\<lparr>last_flush := now\<rparr>))
      else Continue st)"

text \<open>Lines 169 to 171: the timestamp of the event, the clock's where the event has
  none. \<open>time_ts\<close> is what \<open>time.time()\<close> returns on line 171.\<close>

definition event_ts :: "(string \<times> pyval) list \<Rightarrow> real \<Rightarrow> pyval" where
  "event_ts kvs time_ts =
     (let ts = dict_get kvs ''timestamp'' in
      if ts = PNone then PInt (int_of_time time_ts) else ts)"

text \<open>Lines 167 to 192, for a title of the tracked set: the metrics, then the alert
  window.\<close>

definition record_event ::
  "stream_state \<Rightarrow> string \<Rightarrow> (string \<times> pyval) list \<Rightarrow> real \<Rightarrow> outcome" where
  "record_event st title kvs time_ts =
     (let user = dict_get kvs ''user'';
          comment = dict_get kvs ''comment'';
          ts = event_ts kvs time_ts
      in case metrics st title of
           None \<Rightarrow> Raise KeyError st
         | Some m \<Rightarrow>
             let m1 = m\<lparr>total_edits := total_edits m + 1\<rparr>;
                 st1 = st\<lparr>metrics := (metrics st)(title \<mapsto> m1)\<rparr>
             in (case int_of_ts ts of
                   None \<Rightarrow> Raise TypeError st1
                 | Some n \<Rightarrow>
                     (case fromtimestamp_int n of
                        Inl e \<Rightarrow> Raise e st1
                      | Inr stamp \<Rightarrow>
                          let m2 = m1\<lparr>last_edit_utc := Some stamp, last_user := user,
                                      last_comment := comment\<rparr>;
                              st2 = st1\<lparr>metrics := (metrics st1)(title \<mapsto> m2)\<rparr>;
                              (alert, dq) = update_alert_window (recent_edits st2 title) n;
                              st3 = (case alert of
                                       None \<Rightarrow> st2
                                     | Some k \<Rightarrow> log_alert (alert_message title k) st2)
                          in Continue (st3\<lparr>recent_edits := (recent_edits st3)(title := dq)\<rparr>))))"

text \<open>Lines 167 to 200: the flush is reached when the statements before it have run.\<close>

definition tracked_event ::
  "stream_state \<Rightarrow> string \<Rightarrow> (string \<times> pyval) list \<Rightarrow> real \<Rightarrow> real \<Rightarrow> outcome" where
  "tracked_event st title kvs time_ts time_now =
     (case record_event st title kvs time_ts of
        Raise e st' \<Rightarrow> Raise e st'
      | Continue st' \<Rightarrow> flush_if_due st' time_now)"

text \<open>Lines 163 to 200. \<open>event.get\<close> exists on a \<open>dict\<close> only; a list or a dict
  as title cannot be hashed for the test \<open>title not in TRACKED_TITLES\<close>.\<close>

definition handle_event :: "stream_state \<Rightarrow> pyval \<Rightarrow> real \<Rightarrow> real \<Rightarrow> outcome" where
  "handle_event st event time_ts time_now =
     (case event of
        PDict kvs \<Rightarrow>
          (case dict_get kvs ''title'' of
             PStr title \<Rightarrow>
               if title \<notin> set TRACKED_TITLES then Continue st
               else tracked_event st title kvs time_ts time_now
           | PList xs \<Rightarrow> Raise TypeError st
           | PDict d \<Rightarrow> Raise TypeError st
           | _ \<Rightarrow> Continue st)
      | _ \<Rightarrow> Raise AttributeError st)"

text \<open>One line of the stream with the two readings of the clock its processing may
  take. A reading of \<open>time.time()\<close>, a float, is a real number here.\<close>

record tick =
  raw_line :: string
  time_ts :: real
  time_now :: real

definition process_line :: "(string \<Rightarrow> pyval option) \<Rightarrow> stream_state \<Rightarrow> tick \<Rightarrow> outcome" where
  "process_line json_loads st tk =
     (case decode json_loads (raw_line tk) of
        Skip \<Rightarrow> Continue st
      | Parsed event \<Rightarrow> handle_event st event (time_ts tk) (time_now tk))"

subsection \<open>The reconnect loop (lines 113 to 210)\<close>

text \<open>What the environment delivers to \<open>run_stream\<close>: the connection is open and its
  status is good; a \<open>requests.RequestException\<close> or \<open>TimeoutError\<close> with its
  \<open>repr\<close>; a line; the end of the response body; the end of the sleep;
  \<open>KeyboardInterrupt\<close>.\<close>

datatype input =
    ConnectOk
  | TransportError string
  | Line tick
  | EndOfStream
  | SleepDone
  | Interrupt

definition empty_metrics :: entity_metrics where
  "empty_metrics = \<lparr>total_edits = 0, last_edit_utc = None, last_user = PNone,
                     last_comment = PNone\<rparr>"

definition initial_metrics :: metrics_map where
  "initial_metrics = (\<lambda>title. if title \<in> set TRACKED_TITLES then Some empty_metrics else None)"

text \<open>Lines 113 to 138: the state when the \<open>while\<close> loop is entered. \<open>csv_exists\<close>
  tells whether \<open>metrics.csv\<close> was there, \<open>now\<close> is the clock on line 130.\<close>

definition init_state :: "bool \<Rightarrow> real \<Rightarrow> stream_state" where
  "init_state csv_exists now =
     \<lparr>phase = Connecting,
      metrics = initial_metrics,
      recent_edits = (\<lambda>title. []),
      last_flush = now,
      effects = (if csv_exists then [] else [WriteCsvHeader]) @ [WriteSnapshot initial_metrics]\<rparr>"

text \<open>The handler of \<open>requests.RequestException\<close> and \<open>TimeoutError\<close>, up to the
  sleep.\<close>

definition on_transport_error :: "string \<Rightarrow> stream_state \<Rightarrow> stream_state" where
  "on_transport_error repr_e st =
     (log_alert (''INFO: reconnecting after error: '' @ repr_e) st)\<lparr>phase := Backoff\<rparr>"

text \<open>The handler of \<open>KeyboardInterrupt\<close>.\<close>

definition on_keyboard_interrupt :: "stream_state \<Rightarrow> stream_state" where
  "on_keyboard_interrupt st =
     (let st1 = write_snapshot st;
          st2 = st1\<lparr>effects := effects st1 @ [Print ''Stopped. Snapshot saved.'']\<rparr>
      in st2\<lparr>phase := Stopped\<rparr>)"

text \<open>One step of \<open>run_stream\<close>. The handlers of the \<open>try\<close> statement guard its
  body only: an exception raised inside a handler, as \<open>KeyboardInterrupt\<close> during
  \<open>time.sleep(5)\<close> is, leaves \<open>run_stream\<close>. An input that cannot arrive where
  control is leaves the state as it is.\<close>

definition step :: "(string \<Rightarrow> pyval option) \<Rightarrow> stream_state \<Rightarrow> input \<Rightarrow> stream_state" where
  "step json_loads st inp =
     (case phase st of
        Connecting \<Rightarrow>
          (case inp of
             ConnectOk \<Rightarrow> st\<lparr>phase := Streaming\<rparr>
           | TransportError repr_e \<Rightarrow> on_transport_error repr_e st
           | Interrupt \<Rightarrow> on_keyboard_interrupt st
           | _ \<Rightarrow> st)
      | Streaming \<Rightarrow>
          (case inp of
             Line tk \<Rightarrow>
               (case process_line json_loads st tk of
                  Continue st' \<Rightarrow> st'
                | Raise e st' \<Rightarrow> st'\<lparr>phase := Crashed e\<rparr>)
           | EndOfStream \<Rightarrow> st\<lparr>phase := Connecting\<rparr>
           | TransportError repr_e \<Rightarrow> on_transport_error repr_e st
           | Interrupt \<Rightarrow> on_keyboard_interrupt st
           | _ \<Rightarrow> st)
      | Backoff \<Rightarrow>
          (case inp of
             SleepDone \<Rightarrow> st\<lparr>phase := Connecting\<rparr>
           | Interrupt \<Rightarrow> st\<lparr>phase := Crashed KeyboardInterrupt\<rparr>
           | _ \<Rightarrow> st)
      | Stopped \<Rightarrow> st
      | Crashed e \<Rightarrow> st)"

definition run :: "(string \<Rightarrow> pyval option) \<Rightarrow> stream_state \<Rightarrow> input list \<Rightarrow> stream_state" where
  "run json_loads st inps = foldl (step json_loads) st inps"

subsection \<open>Sequences of calls on one window\<close>

text \<open>The alert window of one title over the timestamps of its successive events:
  what each event reports and the deque after the last.\<close>

fun record_many :: "int list \<Rightarrow> int list \<Rightarrow> nat option list \<times> int list" where
  "record_many dq [] = ([], dq)"
| "record_many dq (ts # tss) =
     (let (a, dq') = update_alert_window dq ts;
          (as, dq'') = record_many dq' tss
      in (a # as, dq''))"

subsection \<open>Records of the feed\<close>

text \<open>The fields of a record that the loop body handles without an exception: a
  comment that \<open>(comment or "")[:200]\<close> accepts in a flush (a string, as the feed
  sends it, a list, or a false value such as \<open>None\<close>), and a timestamp, the event's
  or the clock's, that \<open>datetime.fromtimestamp\<close> accepts (an integer of the years 1
  to 9999).\<close>

definition comment_ok :: "pyval \<Rightarrow> bool" where
  "comment_ok c = (case slice200 (or_empty c) of Inl e \<Rightarrow> False | Inr v \<Rightarrow> True)"

definition valid_ts :: "pyval \<Rightarrow> bool" where
  "valid_ts ts =
     (case int_of_ts ts of
        None \<Rightarrow> False
      | Some n \<Rightarrow> (case fromtimestamp_int n of Inl e \<Rightarrow> False | Inr stamp \<Rightarrow> True))"

definition feed_record :: "(string \<times> pyval) list \<Rightarrow> real \<Rightarrow> bool" where
  "feed_record kvs t =
     (comment_ok (dict_get kvs ''comment'') \<and> valid_ts (event_ts kvs t))"

text \<open>The tracked title a line carries, if it decodes to an event of a tracked
  title, and the fields of its record.\<close>

definition tracked_title :: "(string \<Rightarrow> pyval option) \<Rightarrow> tick \<Rightarrow> string option" where
  "tracked_title json_loads tk =
     (case decode json_loads (raw_line tk) of
        Parsed (PDict kvs) \<Rightarrow>
          (case dict_get kvs ''title'' of
             PStr title \<Rightarrow> if title \<in> set TRACKED_TITLES then Some title else None
           | _ \<Rightarrow> None)
      | _ \<Rightarrow> None)"

definition tick_fields :: "(string \<Rightarrow> pyval option) \<Rightarrow> tick \<Rightarrow> (string \<times> pyval) list" where
  "tick_fields json_loads tk =
     (case decode json_loads (raw_line tk) of Parsed (PDict kvs) \<Rightarrow> kvs | _ \<Rightarrow> [])"

text \<open>A line of the feed: one that is skipped, an event of another title, or an event
  of a tracked title with the fields of a record of the feed.\<close>

definition good_line :: "(string \<Rightarrow> pyval option) \<Rightarrow> tick \<Rightarrow> bool" where
  "good_line json_loads tk =
     (case decode json_loads (raw_line tk) of
        Skip \<Rightarrow> True
      | Parsed (PDict kvs) \<Rightarrow>
          (case dict_get kvs ''title'' of
             PStr title \<Rightarrow>
               if title \<in> set TRACKED_TITLES then feed_record kvs (time_ts tk) else True
           | PList xs \<Rightarrow> False
           | PDict d \<Rightarrow> False
           | _ \<Rightarrow> True)
      | Parsed _ \<Rightarrow> False)"

text \<open>Every tracked title has its metrics, with a comment that a flush can
  truncate.\<close>

definition metrics_ok :: "stream_state \<Rightarrow> bool" where
  "metrics_ok st =
     list_all (\<lambda>t. case metrics st t of None \<Rightarrow> False | Some m \<Rightarrow> comment_ok (last_comment m))
       TRACKED_TITLES"

text \<open>The metrics of a title after lines 174 to 177.\<close>

definition updated_metrics ::
  "entity_metrics \<Rightarrow> (string \<times> pyval) list \<Rightarrow> real \<Rightarrow> entity_metrics" where
  "updated_metrics m kvs t =
     \<lparr>total_edits = total_edits m + 1,
      last_edit_utc = map_option IsoUtc (int_of_ts (event_ts kvs t)),
      last_user = dict_get kvs ''user'',
      last_comment = dict_get kvs ''comment''\<rparr>"

text \<open>The timestamp a line appends to the window of its title, and the timestamps
  the events of one title append, in the order of arrival.\<close>

definition tick_ts :: "(string \<Rightarrow> pyval option) \<Rightarrow> tick \<Rightarrow> int" where
  "tick_ts json_loads tk =
     (case int_of_ts (event_ts (tick_fields json_loads tk) (time_ts tk)) of
        None \<Rightarrow> 0
      | Some n \<Rightarrow> n)"

definition title_timestamps :: "(string \<Rightarrow> pyval option) \<Rightarrow> string \<Rightarrow> tick list \<Rightarrow> int list" where
  "title_timestamps json_loads title tks =
     map (tick_ts json_loads) (filter (\<lambda>tk. tracked_title json_loads tk = Some title) tks)"

subsection \<open>Example lines\<close>

text \<open>\<open>json.loads\<close> on the payloads of the example lines below, three records and
  one text that is no JSON; \<open>None\<close> elsewhere.\<close>

definition sample_loads :: "string \<Rightarrow> pyval option" where
  \<open>sample_loads s =
     (if s = ''{"title": "Wikipedia", "user": "Ann", "comment": "fix", "timestamp": 100}''
      then Some (PDict [(''title'', PStr ''Wikipedia''), (''user'', PStr ''Ann''),
                        (''comment'', PStr ''fix''), (''timestamp'', PInt 100)])
      else if s = ''{"title": "Wikipedia", "user": "Bob", "comment": "undo", "timestamp": 50}''
      then Some (PDict [(''title'', PStr ''Wikipedia''), (''user'', PStr ''Bob''),
                        (''comment'', PStr ''undo''), (''timestamp'', PInt 50)])
      else if s = ''{"title": "Some Other Page", "timestamp": 130}''
      then Some (PDict [(''title'', PStr ''Some Other Page''), (''timestamp'', PInt 130)])
      else None)\<close>

definition line_ann :: tick where
  \<open>line_ann = \<lparr>raw_line = ''data: {"title": "Wikipedia", "user": "Ann", "comment": "fix", "timestamp": 100}'',
               time_ts = 1000, time_now = 1000\<rparr>\<close>

definition line_bob :: tick where
  \<open>line_bob = \<lparr>raw_line = ''data: {"title": "Wikipedia", "user": "Bob", "comment": "undo", "timestamp": 50}'',
               time_ts = 1001, time_now = 1001\<rparr>\<close>

definition line_other :: tick where
  \<open>line_other = \<lparr>raw_line = ''data: {"title": "Some Other Page", "timestamp": 130}'',
               time_ts = 1030, time_now = 1030\<rparr>\<close>

definition line_malformed :: tick where
  \<open>line_malformed = \<lparr>raw_line = ''data: {not json'', time_ts = 1002, time_now = 1002\<rparr>\<close>

section \<open>The alert window\<close>

lemma evict_front_dropWhile: "evict_front c xs = dropWhile (\<lambda>x. x < c) xs"
  by (induction xs) auto

lemma retained_length_le: "length (retained dq ts) \<le> Suc (length dq)"
  using length_dropWhile_le[of "\<lambda>x. x < ts - ALERT_WINDOW_SECONDS" "dq @ [ts]"]
  by (simp add: retained_def evict_front_dropWhile)

lemma retained_suffix: "\<exists>pre. dq @ [ts] = pre @ retained dq ts"
  unfolding retained_def evict_front_dropWhile
  by (metis takeWhile_dropWhile_id)

lemma hd_retained: "ts - ALERT_WINDOW_SECONDS \<le> hd (retained dq ts)"
proof -
  have "dropWhile (\<lambda>x. x < ts - ALERT_WINDOW_SECONDS) (dq @ [ts]) \<noteq> []"
    by (simp add: ALERT_WINDOW_SECONDS_def)
  from hd_dropWhile[OF this] show ?thesis
    by (simp add: retained_def evict_front_dropWhile)
qed

lemma update_alert_window_small:
  "length dq < ALERT_COUNT \<Longrightarrow>
   length (snd (update_alert_window dq ts)) < ALERT_COUNT
   \<and> (fst (update_alert_window dq ts) = None \<or> fst (update_alert_window dq ts) = Some ALERT_COUNT)"
  using retained_length_le[of dq ts]
  by (auto simp: update_alert_window_def Let_def ALERT_COUNT_def)

lemma update_alert_window_suffix:
  "snd (update_alert_window dq ts) = [] \<or> (\<exists>pre. dq @ [ts] = pre @ snd (update_alert_window dq ts))"
  using retained_suffix[of dq ts] by (auto simp: update_alert_window_def Let_def)

lemma record_many_sorted:
  "sorted (dq @ tss) \<Longrightarrow>
   sorted (snd (record_many dq tss)) \<and> set (snd (record_many dq tss)) \<subseteq> set (dq @ tss)"
proof (induction tss arbitrary: dq)
  case Nil
  then show ?case by simp
next
  case (Cons ts tss)
  obtain a dq' where u: "update_alert_window dq ts = (a, dq')" by (cases "update_alert_window dq ts")
  from update_alert_window_suffix[of dq ts] u
  consider "dq' = []" | pre where "dq @ [ts] = pre @ dq'" by auto
  then have s: "sorted (dq' @ tss) \<and> set dq' \<subseteq> set (dq @ [ts])"
  proof cases
    case 1
    with Cons.prems show ?thesis by (simp add: sorted_append)
  next
    case 2
    have "sorted ((dq @ [ts]) @ tss)" using Cons.prems by simp
    then have "sorted (pre @ dq' @ tss)" unfolding 2 by simp
    then have "sorted (dq' @ tss)" using sorted_append by blast
    moreover have "set dq' \<subseteq> set (dq @ [ts])" unfolding 2 by simp
    ultimately show ?thesis by simp
  qed
  from Cons.IH[of dq'] s u show ?case
    by (auto split: prod.splits)
qed

lemma sorted_dropWhile_ge:
  "sorted xs \<Longrightarrow> \<forall>t \<in> set (dropWhile (\<lambda>x. x < c) xs). (c::int) \<le> t"
  by (induction xs) auto

text \<open>
  Claim C2. When the deque, after the new timestamp is appended and the old ones are
  evicted, holds at least \<open>ALERT_COUNT\<close> timestamps, the event logs an alert that
  reports that length, the length before the clear, and leaves the deque empty; the
  next event of the title then finds a window of one timestamp, its own, and logs no
  alert. With the timestamps \<open>t\<close>, \<open>t + 1\<close>, ..., \<open>t + 4\<close> the fifth event alerts, with
  the count 5, and a sixth at \<open>t + 5\<close> does not and leaves the window \<open>[t + 5]\<close>.
\<close>

theorem alert_fires_and_clears:
  "(ALERT_COUNT \<le> length (retained dq ts) \<longrightarrow>
      update_alert_window dq ts = (Some (length (retained dq ts)), [])
    \<and> update_alert_window (snd (update_alert_window dq ts)) ts' = (None, [ts']))
   \<and> record_many [] [t, t + 1, t + 2, t + 3, t + 4, t + 5]
        = ([None, None, None, None, Some 5, None], [t + 5])"
  by (simp add: retained_def update_alert_window_def ALERT_WINDOW_SECONDS_def ALERT_COUNT_def)

theorem alert_fires_and_clears_witness:
  "ALERT_COUNT \<le> length (retained [10, 20, 30, 40] 50)
   \<and> update_alert_window [10, 20, 30, 40] 50 = (Some 5, [])
   \<and> update_alert_window (snd (update_alert_window [10, 20, 30, 40] 50)) 60 = (None, [60])"
proof -
  have r: "retained [10, 20, 30, 40] 50 = [10, 20, 30, 40, 50]"
    by (simp add: retained_def ALERT_WINDOW_SECONDS_def)
  have len: "length [10, 20, 30, 40, 50::int] = 5"
    by simp
  have h: "ALERT_COUNT \<le> length (retained [10, 20, 30, 40] 50)"
    by (simp add: r ALERT_COUNT_def)
  from alert_fires_and_clears[of "[10, 20, 30, 40]" 50 60 100] h
  have "update_alert_window [10, 20, 30, 40] 50 = (Some (length (retained [10, 20, 30, 40] 50)), [])
    \<and> update_alert_window (snd (update_alert_window [10, 20, 30, 40] 50)) 60 = (None, [60])"
    by blast
  then have "update_alert_window [10, 20, 30, 40] 50 = (Some 5, [])
    \<and> update_alert_window (snd (update_alert_window [10, 20, 30, 40] 50)) 60 = (None, [60])"
    unfolding r len .
  with h show ?thesis by blast
qed

text \<open>
  Claim C3. The eviction uses the cutoff \<open>ts - ALERT_WINDOW_SECONDS\<close> and removes
  from the front of the deque exactly the longest run of timestamps strictly below
  the cutoff. \<open>ALERT_WINDOW_SECONDS\<close> is 1800, and a timestamp \<open>t\<close> followed by
  \<open>t + 1801\<close> leaves the second alone in the window.
\<close>

theorem eviction_front_below_cutoff:
  "retained dq ts = dropWhile (\<lambda>x. x < ts - ALERT_WINDOW_SECONDS) (dq @ [ts])
   \<and> ALERT_WINDOW_SECONDS = 1800
   \<and> update_alert_window (snd (update_alert_window [] t)) (t + 1801) = (None, [t + 1801])"
  by (simp add: retained_def evict_front_dropWhile update_alert_window_def
      ALERT_WINDOW_SECONDS_def ALERT_COUNT_def)

text \<open>
  Claim C4, as stated: every timestamp retained after the eviction is at least the
  newest timestamp minus \<open>ALERT_WINDOW_SECONDS\<close>, whatever the order of the values.
  It fails: the eviction stops at the first timestamp of the front that is not below
  the cutoff, and an older one behind it stays. After the timestamps 10000 and 0, the
  event with timestamp 10000 tests the window \<open>[10000, 0, 10000]\<close>, and 0 is below
  \<open>10000 - 1800\<close>.
\<close>

theorem retained_bound_counterexample:
  "snd (record_many [] [10000, 0]) = [10000, 0]
   \<and> retained (snd (record_many [] [10000, 0])) 10000 = [10000, 0, 10000]
   \<and> (0::int) \<in> set (retained (snd (record_many [] [10000, 0])) 10000)
   \<and> \<not> (10000 - ALERT_WINDOW_SECONDS \<le> (0::int))"
  by (simp add: retained_def update_alert_window_def ALERT_WINDOW_SECONDS_def ALERT_COUNT_def)

text \<open>
  Claim C4, amended. After the eviction the front timestamp of the window is at least
  the newest timestamp minus \<open>ALERT_WINDOW_SECONDS\<close>, whatever the order of the values;
  when the timestamps of the title have arrived in non-decreasing order, every
  retained timestamp is.
\<close>

theorem retained_bound_in_order:
  "ts - ALERT_WINDOW_SECONDS \<le> hd (retained (snd (record_many [] tss)) ts)
   \<and> (sorted (tss @ [ts]) \<longrightarrow>
        (\<forall>t \<in> set (retained (snd (record_many [] tss)) ts). ts - ALERT_WINDOW_SECONDS \<le> t))"
proof (intro conjI impI)
  show "ts - ALERT_WINDOW_SECONDS \<le> hd (retained (snd (record_many [] tss)) ts)"
    by (rule hd_retained)
next
  assume s: "sorted (tss @ [ts])"
  then have "sorted ([] @ tss)" by (simp add: sorted_append)
  from record_many_sorted[OF this]
  have w: "sorted (snd (record_many [] tss))" "set (snd (record_many [] tss)) \<subseteq> set tss"
    by simp_all
  have "sorted (snd (record_many [] tss) @ [ts])"
    using w s by (auto simp: sorted_append)
  from sorted_dropWhile_ge[OF this]
  show "\<forall>t \<in> set (retained (snd (record_many [] tss)) ts). ts - ALERT_WINDOW_SECONDS \<le> t"
    by (simp add: retained_def evict_front_dropWhile)
qed

theorem retained_bound_in_order_witness:
  "sorted ([100, 200, 2500] @ [2600::int])
   \<and> retained (snd (record_many [] [100, 200, 2500])) 2600 = [2500, 2600]
   \<and> 2600 - ALERT_WINDOW_SECONDS \<le> hd (retained (snd (record_many [] [100, 200, 2500])) 2600)
   \<and> list_all (\<lambda>t. 2600 - ALERT_WINDOW_SECONDS \<le> t)
        (retained (snd (record_many [] [100, 200, 2500])) 2600)"
proof -
  have h: "sorted ([100, 200, 2500] @ [2600::int])" by simp
  have v: "retained (snd (record_many [] [100, 200, 2500])) 2600 = [2500, 2600]"
    by (simp add: retained_def update_alert_window_def ALERT_WINDOW_SECONDS_def ALERT_COUNT_def)
  from h v retained_bound_in_order[of 2600 "[100, 200, 2500]"]
  show ?thesis unfolding list_all_iff by blast
qed

text \<open>
  Claim C10. A window shorter than \<open>ALERT_COUNT\<close> stays shorter than \<open>ALERT_COUNT\<close>
  after every event, and every alert reports exactly \<open>ALERT_COUNT\<close>. The window of a
  title starts empty.
\<close>

theorem window_below_alert_count:
  "length dq < ALERT_COUNT \<Longrightarrow>
   length (snd (record_many dq tss)) < ALERT_COUNT
   \<and> (\<forall>a \<in> set (fst (record_many dq tss)). a = None \<or> a = Some ALERT_COUNT)"
proof (induction tss arbitrary: dq)
  case Nil
  then show ?case by simp
next
  case (Cons ts tss)
  obtain a dq' where u: "update_alert_window dq ts = (a, dq')"
    by (cases "update_alert_window dq ts")
  with update_alert_window_small[OF Cons.prems, of ts]
  have small: "length dq' < ALERT_COUNT" and a: "a = None \<or> a = Some ALERT_COUNT"
    by simp_all
  from Cons.IH[OF small] a u show ?case
    by (auto split: prod.splits)
qed

theorem window_below_alert_count_witness:
  "length ([]::int list) < ALERT_COUNT
   \<and> record_many [] [0, 1, 2, 3, 4, 5, 6] = ([None, None, None, None, Some 5, None, None], [5, 6])
   \<and> length (snd (record_many [] [0, 1, 2, 3, 4, 5, 6])) < ALERT_COUNT
   \<and> list_all (\<lambda>a. a = None \<or> a = Some ALERT_COUNT) (fst (record_many [] [0, 1, 2, 3, 4, 5, 6]))"
proof -
  have h: "length ([]::int list) < ALERT_COUNT" by (simp add: ALERT_COUNT_def)
  have v: "record_many [] [0, 1, 2, 3, 4, 5, 6]
             = ([None, None, None, None, Some 5, None, None], [5, 6])"
    by (simp add: retained_def update_alert_window_def ALERT_WINDOW_SECONDS_def ALERT_COUNT_def)
  from h v window_below_alert_count[OF h, of "[0, 1, 2, 3, 4, 5, 6]"]
  show ?thesis unfolding list_all_iff by blast
qed

section \<open>The loop body\<close>

lemma comment_ok_slice: "comment_ok c \<Longrightarrow> \<exists>v. slice200 (or_empty c) = Inr v"
  by (auto simp: comment_ok_def split: sum.splits)

lemma valid_tsD:
  "valid_ts ts \<Longrightarrow> \<exists>n. int_of_ts ts = Some n \<and> fromtimestamp_int n = Inr (IsoUtc n)"
  by (auto simp: valid_ts_def fromtimestamp_int_def split: option.splits sum.splits if_splits)

lemma append_rows_ok:
  "list_all (\<lambda>t. case metrics st t of None \<Rightarrow> False | Some m \<Rightarrow> comment_ok (last_comment m)) ts
   \<Longrightarrow> \<exists>st'. append_rows ts st = Continue st' \<and> metrics st' = metrics st
          \<and> recent_edits st' = recent_edits st \<and> phase st' = phase st
          \<and> last_flush st' = last_flush st"
proof (induction ts arbitrary: st)
  case Nil
  then show ?case by simp
next
  case (Cons t ts)
  from Cons.prems obtain m where m: "metrics st t = Some m" "comment_ok (last_comment m)"
    by (auto split: option.splits)
  from comment_ok_slice[OF m(2)] obtain v where v: "slice200 (or_empty (last_comment m)) = Inr v"
    by blast
  let ?st1 = "st\<lparr>effects := effects st @ [AppendMetricsRow
      \<lparr>row_title = t, row_total_edits = total_edits m, row_last_edit_utc = last_edit_utc m,
       row_last_user = or_empty (last_user m), row_last_comment = v\<rparr>]\<rparr>"
  have step: "append_rows (t # ts) st = append_rows ts ?st1"
    using m v by (simp add: append_metrics_row_def)
  have "list_all (\<lambda>t. case metrics ?st1 t of None \<Rightarrow> False | Some m \<Rightarrow> comment_ok (last_comment m)) ts"
    using Cons.prems by simp
  from Cons.IH[OF this] show ?case
    unfolding step by simp
qed

lemma flush_if_due_ok:
  assumes "metrics_ok st"
  shows "\<exists>st'. flush_if_due st now = Continue st' \<and> metrics st' = metrics st
          \<and> recent_edits st' = recent_edits st \<and> phase st' = phase st"
proof (cases "now - last_flush st \<ge> FLUSH_EVERY_SECONDS")
  case True
  from assms obtain st1 where "append_rows TRACKED_TITLES st = Continue st1"
     "metrics st1 = metrics st" "recent_edits st1 = recent_edits st" "phase st1 = phase st"
    using append_rows_ok[of st TRACKED_TITLES] unfolding metrics_ok_def by blast
  then show ?thesis using True by (simp add: flush_if_due_def write_snapshot_def)
next
  case False
  then show ?thesis by (simp add: flush_if_due_def)
qed

lemma record_event_ok:
  assumes "metrics st title = Some m" and "feed_record kvs t"
  shows "\<exists>st'. record_event st title kvs t = Continue st'
           \<and> metrics st' = (metrics st)(title \<mapsto> updated_metrics m kvs t)
           \<and> phase st' = phase st"
proof -
  from assms(2) valid_tsD[of "event_ts kvs t"] obtain n where
    n: "int_of_ts (event_ts kvs t) = Some n" "fromtimestamp_int n = Inr (IsoUtc n)"
    by (auto simp: feed_record_def)
  show ?thesis
    using assms(1) n
    by (cases m) (auto simp: record_event_def Let_def updated_metrics_def
        log_alert_def split: prod.splits option.splits)
qed

lemma metrics_ok_lookup:
  "metrics_ok st \<Longrightarrow> e \<in> set TRACKED_TITLES \<Longrightarrow>
   \<exists>m. metrics st e = Some m \<and> comment_ok (last_comment m)"
  by (auto simp: metrics_ok_def list_all_iff split: option.splits)

lemma metrics_ok_update:
  assumes "metrics_ok st" and "metrics st' = (metrics st)(e \<mapsto> m)" and "comment_ok (last_comment m)"
  shows "metrics_ok st'"
  using assms by (auto simp: metrics_ok_def list_all_iff split: option.splits)

lemma metrics_ok_cong: "metrics st' = metrics st \<Longrightarrow> metrics_ok st' = metrics_ok st"
  by (simp add: metrics_ok_def)

lemma tracked_titleD:
  "tracked_title jl tk = Some e \<Longrightarrow>
   e \<in> set TRACKED_TITLES \<and> decode jl (raw_line tk) = Parsed (PDict (tick_fields jl tk))
   \<and> dict_get (tick_fields jl tk) ''title'' = PStr e"
  by (auto simp: tracked_title_def tick_fields_def split: decoded.splits pyval.splits if_splits)

lemma step_untracked:
  assumes "good_line jl tk" and "tracked_title jl tk = None"
  shows "process_line jl st tk = Continue st"
  using assms
  by (auto simp: good_line_def tracked_title_def process_line_def handle_event_def
      split: decoded.splits pyval.splits if_splits)

lemma step_tracked:
  assumes "phase st = Streaming" and "metrics_ok st" and "good_line jl tk"
    and "tracked_title jl tk = Some e"
  shows "\<exists>m. metrics st e = Some m
           \<and> metrics (step jl st (Line tk))
               = (metrics st)(e \<mapsto> updated_metrics m (tick_fields jl tk) (time_ts tk))
           \<and> phase (step jl st (Line tk)) = Streaming
           \<and> metrics_ok (step jl st (Line tk))"
proof -
  let ?kvs = "tick_fields jl tk"
  from tracked_titleD[OF assms(4)]
  have e: "e \<in> set TRACKED_TITLES" and d: "decode jl (raw_line tk) = Parsed (PDict ?kvs)"
    and t: "dict_get ?kvs ''title'' = PStr e" by simp_all
  from assms(3) d t e have f: "feed_record ?kvs (time_ts tk)"
    by (simp add: good_line_def)
  from metrics_ok_lookup[OF assms(2) e] obtain m where m: "metrics st e = Some m" by blast
  from record_event_ok[OF m f] obtain st1 where
    r: "record_event st e ?kvs (time_ts tk) = Continue st1"
       "metrics st1 = (metrics st)(e \<mapsto> updated_metrics m ?kvs (time_ts tk))"
       "phase st1 = phase st" by blast
  have "comment_ok (last_comment (updated_metrics m ?kvs (time_ts tk)))"
    using f by (simp add: updated_metrics_def feed_record_def)
  from metrics_ok_update[OF assms(2) r(2) this] have ok1: "metrics_ok st1" .
  from flush_if_due_ok[OF ok1, of "time_now tk"] obtain st2 where
    fl: "flush_if_due st1 (time_now tk) = Continue st2" "metrics st2 = metrics st1"
        "phase st2 = phase st1" by blast
  have p: "process_line jl st tk = Continue st2"
    using d t e r(1) fl(1) by (simp add: process_line_def handle_event_def tracked_event_def)
  have s: "step jl st (Line tk) = st2"
    using assms(1) p by (simp add: step_def)
  show ?thesis
    unfolding s using m r fl ok1 assms(1) metrics_ok_cong[OF fl(2)] by simp
qed

lemma step_good_line:
  assumes "phase st = Streaming" and "metrics_ok st" and "good_line jl tk"
  shows "phase (step jl st (Line tk)) = Streaming \<and> metrics_ok (step jl st (Line tk))"
proof (cases "tracked_title jl tk")
  case None
  from step_untracked[OF assms(3) None, of st] assms(1,2) show ?thesis
    by (simp add: step_def)
next
  case (Some e)
  from step_tracked[OF assms Some] show ?thesis by blast
qed

lemma step_edits:
  assumes "phase st = Streaming" and "metrics_ok st" and "good_line jl tk"
  shows "map_option total_edits (metrics (step jl st (Line tk)) e)
         = map_option (\<lambda>n. n + (if tracked_title jl tk = Some e then 1 else 0))
             (map_option total_edits (metrics st e))"
proof (cases "tracked_title jl tk")
  case None
  from step_untracked[OF assms(3) None, of st] assms(1) show ?thesis
    by (simp add: step_def None option.map_comp comp_def option.map_ident)
next
  case (Some e')
  from step_tracked[OF assms Some] obtain m where
    m: "metrics st e' = Some m"
       "metrics (step jl st (Line tk)) = (metrics st)(e' \<mapsto> updated_metrics m (tick_fields jl tk) (time_ts tk))"
    by blast
  show ?thesis
    using m Some by (cases "e' = e") (auto simp: updated_metrics_def option.map_comp comp_def option.map_ident)
qed

lemma run_good_lines:
  assumes "phase st = Streaming" and "metrics_ok st" and "list_all (good_line jl) tks"
  shows "phase (run jl st (map Line tks)) = Streaming \<and> metrics_ok (run jl st (map Line tks))
    \<and> map_option total_edits (metrics (run jl st (map Line tks)) e)
       = map_option (\<lambda>n. n + int (length (filter (\<lambda>tk. tracked_title jl tk = Some e) tks)))
           (map_option total_edits (metrics st e))"
  using assms
proof (induction tks arbitrary: st)
  case Nil
  then show ?case by (simp add: run_def option.map_ident)
next
  case (Cons tk tks)
  from Cons.prems have g: "good_line jl tk" and gs: "list_all (good_line jl) tks" by simp_all
  from step_good_line[OF Cons.prems(1,2) g]
  have p: "phase (step jl st (Line tk)) = Streaming" and ok: "metrics_ok (step jl st (Line tk))"
    by simp_all
  have r: "run jl st (map Line (tk # tks)) = run jl (step jl st (Line tk)) (map Line tks)"
    by (simp add: run_def)
  from Cons.IH[OF p ok gs] step_edits[OF Cons.prems(1,2) g, of e]
  show ?case unfolding r
    by (cases "metrics st e") (auto simp: option.map_comp comp_def)
qed

lemma record_event_effects:
  assumes "metrics st title = Some m" and "feed_record kvs t"
  shows "\<exists>st' n. record_event st title kvs t = Continue st'
           \<and> int_of_ts (event_ts kvs t) = Some n
           \<and> effects st' = effects st @
                (case fst (update_alert_window (recent_edits st title) n) of
                   None \<Rightarrow> []
                 | Some k \<Rightarrow> [LogAlert (alert_message title k)])
           \<and> recent_edits st' = (recent_edits st)
                (title := snd (update_alert_window (recent_edits st title) n))"
proof -
  from assms(2) valid_tsD[of "event_ts kvs t"] obtain n where
    n: "int_of_ts (event_ts kvs t) = Some n" "fromtimestamp_int n = Inr (IsoUtc n)"
    by (auto simp: feed_record_def)
  show ?thesis
    using assms(1) n
    by (cases m) (auto simp: record_event_def Let_def
        log_alert_def split: prod.splits option.splits)
qed

lemma append_rows_effects:
  "list_all (\<lambda>t. case metrics st t of None \<Rightarrow> False | Some m \<Rightarrow> comment_ok (last_comment m)) ts
   \<Longrightarrow> \<exists>st' rows. append_rows ts st = Continue st'
          \<and> effects st' = effects st @ map AppendMetricsRow rows
          \<and> map row_title rows = ts
          \<and> metrics st' = metrics st \<and> last_flush st' = last_flush st"
proof (induction ts arbitrary: st)
  case Nil
  then show ?case by simp
next
  case (Cons t ts)
  from Cons.prems obtain m where m: "metrics st t = Some m" "comment_ok (last_comment m)"
    by (auto split: option.splits)
  from comment_ok_slice[OF m(2)] obtain v where v: "slice200 (or_empty (last_comment m)) = Inr v"
    by blast
  define row where "row = \<lparr>row_title = t, row_total_edits = total_edits m,
       row_last_edit_utc = last_edit_utc m, row_last_user = or_empty (last_user m),
       row_last_comment = v\<rparr>"
  let ?st1 = "st\<lparr>effects := effects st @ [AppendMetricsRow row]\<rparr>"
  have step: "append_rows (t # ts) st = append_rows ts ?st1"
    using m v by (simp add: append_metrics_row_def row_def)
  have "list_all (\<lambda>t. case metrics ?st1 t of None \<Rightarrow> False | Some m \<Rightarrow> comment_ok (last_comment m)) ts"
    using Cons.prems by simp
  from Cons.IH[OF this] obtain st' rows where
    r: "append_rows ts ?st1 = Continue st'"
       "effects st' = effects ?st1 @ map AppendMetricsRow rows"
       "map row_title rows = ts" "metrics st' = metrics st" "last_flush st' = last_flush st"
    by auto
  have eff: "effects st' = effects st @ map AppendMetricsRow (row # rows)"
    using r(2) by simp
  have titles: "map row_title (row # rows) = t # ts"
    using r(3) by (simp add: row_def)
  have "append_rows ts ?st1 = Continue st'
          \<and> effects st' = effects st @ map AppendMetricsRow (row # rows)
          \<and> map row_title (row # rows) = t # ts
          \<and> metrics st' = metrics st \<and> last_flush st' = last_flush st"
    using r(1,4,5) eff titles by simp
  then show ?case
    unfolding step by (intro exI)
qed

lemma record_event_last_flush:
  assumes "metrics st title = Some m" and "feed_record kvs t"
  shows "\<exists>st'. record_event st title kvs t = Continue st' \<and> last_flush st' = last_flush st"
proof -
  from assms(2) valid_tsD[of "event_ts kvs t"] obtain n where
    n: "int_of_ts (event_ts kvs t) = Some n" "fromtimestamp_int n = Inr (IsoUtc n)"
    by (auto simp: feed_record_def)
  show ?thesis
    using assms(1) n
    by (cases m) (auto simp: record_event_def Let_def
        log_alert_def split: prod.splits option.splits)
qed

lemma tracked_line_flushes_when_due:
  assumes "phase st = Streaming" and "metrics_ok st" and "good_line jl tk"
    and "tracked_title jl tk = Some e"
    and "time_now tk - last_flush st \<ge> FLUSH_EVERY_SECONDS"
  shows "last_flush (step jl st (Line tk)) = time_now tk
    \<and> (\<exists>pre rows. effects (step jl st (Line tk))
           = pre @ map AppendMetricsRow rows @ [WriteSnapshot (metrics (step jl st (Line tk)))]
         \<and> map row_title rows = TRACKED_TITLES)"
proof -
  let ?kvs = "tick_fields jl tk"
  from tracked_titleD[OF assms(4)]
  have e: "e \<in> set TRACKED_TITLES" and d: "decode jl (raw_line tk) = Parsed (PDict ?kvs)"
    and t: "dict_get ?kvs ''title'' = PStr e" by simp_all
  from assms(3) d t e have f: "feed_record ?kvs (time_ts tk)"
    by (simp add: good_line_def)
  from metrics_ok_lookup[OF assms(2) e] obtain m where m: "metrics st e = Some m" by blast
  from record_event_ok[OF m f] record_event_last_flush[OF m f] obtain st1 where
    r: "record_event st e ?kvs (time_ts tk) = Continue st1"
       "metrics st1 = (metrics st)(e \<mapsto> updated_metrics m ?kvs (time_ts tk))"
       "phase st1 = phase st" "last_flush st1 = last_flush st" by auto
  have "comment_ok (last_comment (updated_metrics m ?kvs (time_ts tk)))"
    using f by (simp add: updated_metrics_def feed_record_def)
  from metrics_ok_update[OF assms(2) r(2) this] have ok1: "metrics_ok st1" .
  from append_rows_effects[of st1 TRACKED_TITLES] ok1 obtain st2 rows where
    a: "append_rows TRACKED_TITLES st1 = Continue st2"
       "effects st2 = effects st1 @ map AppendMetricsRow rows"
       "map row_title rows = TRACKED_TITLES" "metrics st2 = metrics st1"
    unfolding metrics_ok_def by blast
  let ?st3 = "(write_snapshot st2)\<lparr>last_flush := time_now tk\<rparr>"
  have fl: "flush_if_due st1 (time_now tk) = Continue ?st3"
    using assms(5) r(4) a(1) by (simp add: flush_if_due_def)
  have p: "process_line jl st tk = Continue ?st3"
    using d t e r(1) fl by (simp add: process_line_def handle_event_def tracked_event_def)
  have s: "step jl st (Line tk) = ?st3"
    using assms(1) p by (simp add: step_def)
  have "effects ?st3 = effects st1 @ map AppendMetricsRow rows @ [WriteSnapshot (metrics ?st3)]"
    using a(2) by (simp add: write_snapshot_def)
  with a(3) show ?thesis unfolding s by (auto simp: write_snapshot_def)
qed

lemma decode_ann: "decode sample_loads (raw_line line_ann)
   = Parsed (PDict [(''title'', PStr ''Wikipedia''), (''user'', PStr ''Ann''),
                        (''comment'', PStr ''fix''), (''timestamp'', PInt 100)])"
  by (simp add: decode_def strip_def is_space_def sample_loads_def line_ann_def)

lemma decode_bob: "decode sample_loads (raw_line line_bob)
   = Parsed (PDict [(''title'', PStr ''Wikipedia''), (''user'', PStr ''Bob''),
                        (''comment'', PStr ''undo''), (''timestamp'', PInt 50)])"
  by (simp add: decode_def strip_def is_space_def sample_loads_def line_bob_def)

lemma decode_other: "decode sample_loads (raw_line line_other)
   = Parsed (PDict [(''title'', PStr ''Some Other Page''), (''timestamp'', PInt 130)])"
  by (simp add: decode_def strip_def is_space_def sample_loads_def line_other_def)

lemma decode_malformed: "decode sample_loads (raw_line line_malformed) = Skip"
  by (simp add: decode_def strip_def is_space_def sample_loads_def line_malformed_def)

lemma good_ann:
  "good_line sample_loads line_ann \<and> tracked_title sample_loads line_ann = Some ''Wikipedia''"
  by (simp add: good_line_def tracked_title_def decode_ann dict_get_def TRACKED_TITLES_def
      feed_record_def valid_ts_def event_ts_def comment_ok_def or_empty_def
      fromtimestamp_int_def)

lemma good_bob:
  "good_line sample_loads line_bob \<and> tracked_title sample_loads line_bob = Some ''Wikipedia''"
  by (simp add: good_line_def tracked_title_def decode_bob dict_get_def TRACKED_TITLES_def
      feed_record_def valid_ts_def event_ts_def comment_ok_def or_empty_def
      fromtimestamp_int_def)

lemma good_other:
  "good_line sample_loads line_other \<and> tracked_title sample_loads line_other = None"
  by (simp add: good_line_def tracked_title_def decode_other dict_get_def TRACKED_TITLES_def)

lemma good_malformed:
  "good_line sample_loads line_malformed \<and> tracked_title sample_loads line_malformed = None"
  by (simp add: good_line_def tracked_title_def decode_malformed)

lemma run_Cons: "run jl st (x # xs) = run jl (step jl st x) xs"
  by (simp add: run_def)

lemma init_connected:
  "phase (step jl (init_state b t0) ConnectOk) = Streaming
   \<and> metrics (step jl (init_state b t0) ConnectOk) = initial_metrics
   \<and> metrics_ok (step jl (init_state b t0) ConnectOk)"
  by (simp add: step_def init_state_def metrics_ok_def initial_metrics_def empty_metrics_def
      list_all_iff comment_ok_def or_empty_def)

lemma step_other_title:
  assumes "phase st = Streaming" and "metrics_ok st" and "good_line jl tk"
    and "tracked_title jl tk \<noteq> Some e"
  shows "metrics (step jl st (Line tk)) e = metrics st e"
proof (cases "tracked_title jl tk")
  case None
  from step_untracked[OF assms(3) None, of st] assms(1) show ?thesis
    by (simp add: step_def)
next
  case (Some e')
  from step_tracked[OF assms(1,2,3) Some] assms(4) Some show ?thesis
    by auto
qed

lemma run_other_titles:
  assumes "phase st = Streaming" and "metrics_ok st" and "list_all (good_line jl) tks"
    and "list_all (\<lambda>tk. tracked_title jl tk \<noteq> Some e) tks"
  shows "metrics (run jl st (map Line tks)) e = metrics st e"
  using assms
proof (induction tks arbitrary: st)
  case Nil
  then show ?case by (simp add: run_def)
next
  case (Cons tk tks)
  from Cons.prems have g: "good_line jl tk" and gs: "list_all (good_line jl) tks"
    and o: "tracked_title jl tk \<noteq> Some e"
    and os: "list_all (\<lambda>tk. tracked_title jl tk \<noteq> Some e) tks" by simp_all
  from step_good_line[OF Cons.prems(1,2) g]
  have p: "phase (step jl st (Line tk)) = Streaming" and ok: "metrics_ok (step jl st (Line tk))"
    by simp_all
  from Cons.IH[OF p ok gs os] step_other_title[OF Cons.prems(1,2) g o]
  show ?case by (simp add: run_Cons)
qed

text \<open>The window of a title in the loop is the window of \<open>record_many\<close> over the
  timestamps of the events of the title.\<close>

lemma step_tracked_window:
  assumes "phase st = Streaming" and "metrics_ok st" and "good_line jl tk"
    and "tracked_title jl tk = Some e"
  shows "recent_edits (step jl st (Line tk))
           = (recent_edits st)(e := snd (update_alert_window (recent_edits st e) (tick_ts jl tk)))"
proof -
  let ?kvs = "tick_fields jl tk"
  from tracked_titleD[OF assms(4)]
  have e: "e \<in> set TRACKED_TITLES" and d: "decode jl (raw_line tk) = Parsed (PDict ?kvs)"
    and t: "dict_get ?kvs ''title'' = PStr e" by simp_all
  from assms(3) d t e have f: "feed_record ?kvs (time_ts tk)"
    by (simp add: good_line_def)
  from metrics_ok_lookup[OF assms(2) e] obtain m where m: "metrics st e = Some m" by blast
  from record_event_effects[OF m f] obtain st1 n where
    r: "record_event st e ?kvs (time_ts tk) = Continue st1"
       "int_of_ts (event_ts ?kvs (time_ts tk)) = Some n"
       "recent_edits st1 = (recent_edits st)(e := snd (update_alert_window (recent_edits st e) n))"
    by blast
  from record_event_ok[OF m f] r(1)
  have m1: "metrics st1 = (metrics st)(e \<mapsto> updated_metrics m ?kvs (time_ts tk))" by auto
  have "comment_ok (last_comment (updated_metrics m ?kvs (time_ts tk)))"
    using f by (simp add: updated_metrics_def feed_record_def)
  from metrics_ok_update[OF assms(2) m1 this] have ok1: "metrics_ok st1" .
  from flush_if_due_ok[OF ok1, of "time_now tk"] obtain st2 where
    fl: "flush_if_due st1 (time_now tk) = Continue st2" "recent_edits st2 = recent_edits st1"
    by blast
  have p: "process_line jl st tk = Continue st2"
    using d t e r(1) fl(1) by (simp add: process_line_def handle_event_def tracked_event_def)
  have s: "step jl st (Line tk) = st2"
    using assms(1) p by (simp add: step_def)
  have n: "tick_ts jl tk = n" using r(2) by (simp add: tick_ts_def)
  show ?thesis unfolding s fl(2) r(3) n ..
qed

lemma run_windows:
  assumes "phase st = Streaming" and "metrics_ok st" and "list_all (good_line jl) tks"
  shows "recent_edits (run jl st (map Line tks)) e
           = snd (record_many (recent_edits st e) (title_timestamps jl e tks))"
  using assms
proof (induction tks arbitrary: st)
  case Nil
  then show ?case by (simp add: run_def title_timestamps_def)
next
  case (Cons tk tks)
  from Cons.prems have g: "good_line jl tk" and gs: "list_all (good_line jl) tks" by simp_all
  from step_good_line[OF Cons.prems(1,2) g]
  have p: "phase (step jl st (Line tk)) = Streaming" and ok: "metrics_ok (step jl st (Line tk))"
    by simp_all
  note ih = Cons.IH[OF p ok gs]
  show ?case
  proof (cases "tracked_title jl tk = Some e")
    case True
    from step_tracked_window[OF Cons.prems(1,2) g True]
    have "recent_edits (step jl st (Line tk)) e
            = snd (update_alert_window (recent_edits st e) (tick_ts jl tk))" by simp
    with ih True show ?thesis
      by (simp add: run_Cons title_timestamps_def split: prod.splits)
  next
    case False
    have "recent_edits (step jl st (Line tk)) e = recent_edits st e"
    proof (cases "tracked_title jl tk")
      case None
      from step_untracked[OF g None, of st] Cons.prems(1) show ?thesis
        by (simp add: step_def)
    next
      case (Some e')
      with False have "e' \<noteq> e" by simp
      with step_tracked_window[OF Cons.prems(1,2) g Some] show ?thesis by simp
    qed
    with ih False show ?thesis
      by (simp add: run_Cons title_timestamps_def)
  qed
qed

text \<open>
  Claim C1. From the start of \<open>run_stream\<close>, over any lines of the feed (skipped
  lines, events of other titles, and events of tracked titles whose fields are a
  record of the feed), the loop keeps streaming and the \<open>total_edits\<close> of a tracked
  title is the number of the lines that are events of that title: each such event
  adds one and nothing else changes it. For \<open>N\<close> lines that all are events of the
  title it is \<open>N\<close>.
\<close>

theorem total_edits_counts_events:
  assumes "list_all (good_line jl) tks" and "e \<in> set TRACKED_TITLES"
  shows "phase (run jl (init_state b t0) (ConnectOk # map Line tks)) = Streaming
    \<and> map_option total_edits (metrics (run jl (init_state b t0) (ConnectOk # map Line tks)) e)
        = Some (int (length (filter (\<lambda>tk. tracked_title jl tk = Some e) tks)))
    \<and> (list_all (\<lambda>tk. tracked_title jl tk = Some e) tks \<longrightarrow>
         map_option total_edits (metrics (run jl (init_state b t0) (ConnectOk # map Line tks)) e)
           = Some (int (length tks)))"
proof -
  let ?st = "step jl (init_state b t0) ConnectOk"
  from init_connected[of jl b t0]
  have p: "phase ?st = Streaming" and ok: "metrics_ok ?st" and m: "metrics ?st = initial_metrics"
    by simp_all
  have z: "map_option total_edits (metrics ?st e) = Some 0"
    using assms(2) by (simp add: m initial_metrics_def empty_metrics_def)
  from run_good_lines[OF p ok assms(1), of e]
  have r: "phase (run jl ?st (map Line tks)) = Streaming"
    "map_option total_edits (metrics (run jl ?st (map Line tks)) e)
       = Some (int (length (filter (\<lambda>tk. tracked_title jl tk = Some e) tks)))"
    by (simp_all add: z)
  have f: "list_all (\<lambda>tk. tracked_title jl tk = Some e) tks \<Longrightarrow>
       filter (\<lambda>tk. tracked_title jl tk = Some e) tks = tks"
    by (simp add: list_all_iff)
  have "list_all (\<lambda>tk. tracked_title jl tk = Some e) tks \<longrightarrow>
       map_option total_edits (metrics (run jl ?st (map Line tks)) e) = Some (int (length tks))"
  proof
    assume "list_all (\<lambda>tk. tracked_title jl tk = Some e) tks"
    from f[OF this] r(2) show
      "map_option total_edits (metrics (run jl ?st (map Line tks)) e) = Some (int (length tks))"
      by simp
  qed
  with r show ?thesis
    unfolding run_Cons by blast
qed

theorem total_edits_counts_events_witness:
  "list_all (good_line sample_loads) [line_ann, line_other, line_bob, line_malformed]
   \<and> ''Wikipedia'' \<in> set TRACKED_TITLES
   \<and> phase (run sample_loads (init_state False 0)
        (ConnectOk # map Line [line_ann, line_other, line_bob, line_malformed])) = Streaming
   \<and> map_option total_edits (metrics (run sample_loads (init_state False 0)
        (ConnectOk # map Line [line_ann, line_other, line_bob, line_malformed])) ''Wikipedia'')
       = Some 2
   \<and> list_all (\<lambda>tk. tracked_title sample_loads tk = Some ''Wikipedia'') [line_ann, line_bob, line_ann]
   \<and> map_option total_edits (metrics (run sample_loads (init_state False 0)
        (ConnectOk # map Line [line_ann, line_bob, line_ann])) ''Wikipedia'')
       = Some 3"
proof -
  have g: "list_all (good_line sample_loads) [line_ann, line_other, line_bob, line_malformed]"
    by (simp add: good_ann good_other good_bob good_malformed)
  have e: "''Wikipedia'' \<in> set TRACKED_TITLES"
    by (simp add: TRACKED_TITLES_def)
  have c: "int (length (filter (\<lambda>tk. tracked_title sample_loads tk = Some ''Wikipedia'')
             [line_ann, line_other, line_bob, line_malformed])) = 2"
    by (simp add: good_ann good_other good_bob good_malformed)
  have g': "list_all (good_line sample_loads) [line_ann, line_bob, line_ann]"
    by (simp add: good_ann good_bob)
  have a: "list_all (\<lambda>tk. tracked_title sample_loads tk = Some ''Wikipedia'')
             [line_ann, line_bob, line_ann]"
    by (simp add: good_ann good_bob)
  have l: "int (length [line_ann, line_bob, line_ann]) = 3"
    by simp
  from total_edits_counts_events[OF g' e, of False 0] a
  have "map_option total_edits (metrics (run sample_loads (init_state False 0)
        (ConnectOk # map Line [line_ann, line_bob, line_ann])) ''Wikipedia'')
       = Some 3"
    unfolding l by blast
  with total_edits_counts_events[OF g e, of False 0] g e a
  show ?thesis unfolding c by blast
qed

text \<open>
  Claim C5. After any lines of the feed, the \<open>last_user\<close>, \<open>last_comment\<close> and
  \<open>last_edit_utc\<close> of a tracked title are the user, the comment and the rendering of
  the timestamp of the last event of that title in the order of arrival, whatever
  the values of the timestamps before it.
\<close>

theorem last_fields_from_last_event:
  assumes "phase st = Streaming" and "metrics_ok st"
    and "list_all (good_line jl) (pre @ tk # post)"
    and "tracked_title jl tk = Some e"
    and "list_all (\<lambda>x. tracked_title jl x \<noteq> Some e) post"
  shows "\<exists>m n. metrics (run jl st (map Line (pre @ tk # post))) e = Some m
           \<and> last_user m = dict_get (tick_fields jl tk) ''user''
           \<and> last_comment m = dict_get (tick_fields jl tk) ''comment''
           \<and> int_of_ts (event_ts (tick_fields jl tk) (time_ts tk)) = Some n
           \<and> last_edit_utc m = Some (IsoUtc n)"
proof -
  from assms(3) have g1: "list_all (good_line jl) pre" and g: "good_line jl tk"
    and g2: "list_all (good_line jl) post" by simp_all
  let ?s1 = "run jl st (map Line pre)"
  from run_good_lines[OF assms(1,2) g1, of e]
  have p1: "phase ?s1 = Streaming" and ok1: "metrics_ok ?s1" by simp_all
  let ?s2 = "step jl ?s1 (Line tk)"
  let ?kvs = "tick_fields jl tk"
  from step_tracked[OF p1 ok1 g assms(4)] obtain m0 where
    s2: "metrics ?s2 = (metrics ?s1)(e \<mapsto> updated_metrics m0 ?kvs (time_ts tk))"
        "phase ?s2 = Streaming" "metrics_ok ?s2" by blast
  from run_other_titles[OF s2(2,3) g2 assms(5)]
  have "metrics (run jl ?s2 (map Line post)) e = Some (updated_metrics m0 ?kvs (time_ts tk))"
    by (simp add: s2(1))
  moreover have "run jl st (map Line (pre @ tk # post)) = run jl ?s2 (map Line post)"
    by (simp add: run_def)
  moreover from tracked_titleD[OF assms(4)] g
  have "feed_record ?kvs (time_ts tk)" by (simp add: good_line_def)
  with valid_tsD[of "event_ts ?kvs (time_ts tk)"]
  obtain n where "int_of_ts (event_ts ?kvs (time_ts tk)) = Some n"
    by (auto simp: feed_record_def)
  ultimately show ?thesis
    by (simp add: updated_metrics_def)
qed

theorem last_fields_from_last_event_witness:
  "phase (step sample_loads (init_state False 0) ConnectOk) = Streaming
   \<and> metrics_ok (step sample_loads (init_state False 0) ConnectOk)
   \<and> list_all (good_line sample_loads) ([line_ann] @ line_bob # [line_other])
   \<and> tracked_title sample_loads line_bob = Some ''Wikipedia''
   \<and> list_all (\<lambda>x. tracked_title sample_loads x \<noteq> Some ''Wikipedia'') [line_other]
   \<and> (\<exists>m. metrics (run sample_loads (step sample_loads (init_state False 0) ConnectOk)
              (map Line ([line_ann] @ line_bob # [line_other]))) ''Wikipedia'' = Some m
          \<and> last_user m = PStr ''Bob'' \<and> last_comment m = PStr ''undo''
          \<and> last_edit_utc m = Some (IsoUtc 50))"
proof -
  let ?st = "step sample_loads (init_state False 0) ConnectOk"
  from init_connected[of sample_loads False 0]
  have p: "phase ?st = Streaming" and ok: "metrics_ok ?st" by simp_all
  have g: "list_all (good_line sample_loads) ([line_ann] @ line_bob # [line_other])"
    by (simp add: good_ann good_other good_bob)
  have t: "tracked_title sample_loads line_bob = Some ''Wikipedia''"
    by (simp add: good_bob)
  have o: "list_all (\<lambda>x. tracked_title sample_loads x \<noteq> Some ''Wikipedia'') [line_other]"
    by (simp add: good_other)
  have f: "tick_fields sample_loads line_bob
             = [(''title'', PStr ''Wikipedia''), (''user'', PStr ''Bob''),
                (''comment'', PStr ''undo''), (''timestamp'', PInt 50)]"
    by (simp add: tick_fields_def decode_bob)
  from last_fields_from_last_event[OF p ok g t o] obtain m n where
    m: "metrics (run sample_loads ?st (map Line ([line_ann] @ line_bob # [line_other])))
          ''Wikipedia'' = Some m"
       "last_user m = dict_get (tick_fields sample_loads line_bob) ''user''"
       "last_comment m = dict_get (tick_fields sample_loads line_bob) ''comment''"
       "int_of_ts (event_ts (tick_fields sample_loads line_bob) (time_ts line_bob)) = Some n"
       "last_edit_utc m = Some (IsoUtc n)"
    by blast
  from m(4) have n: "n = 50" by (simp add: f event_ts_def dict_get_def)
  from m(2,3) have "last_user m = PStr ''Bob''" "last_comment m = PStr ''undo''"
    by (simp_all add: f dict_get_def)
  with m(1,5) n have "\<exists>m. metrics (run sample_loads ?st
              (map Line ([line_ann] @ line_bob # [line_other]))) ''Wikipedia'' = Some m
          \<and> last_user m = PStr ''Bob'' \<and> last_comment m = PStr ''undo''
          \<and> last_edit_utc m = Some (IsoUtc 50)"
    by blast
  with p ok g t o show ?thesis by blast
qed



text \<open>
  Claim C9. A transport error, the sleep and a successful reconnect, from the
  streaming or the connecting state, lead back to streaming with the metrics and the
  alert windows as they were; the only effect is the note in the alert log.
\<close>

theorem reconnect_keeps_metrics:
  assumes "phase st = Streaming \<or> phase st = Connecting"
  shows "phase (run jl st [TransportError repr_e, SleepDone, ConnectOk]) = Streaming
     \<and> metrics (run jl st [TransportError repr_e, SleepDone, ConnectOk]) = metrics st
     \<and> recent_edits (run jl st [TransportError repr_e, SleepDone, ConnectOk]) = recent_edits st
     \<and> effects (run jl st [TransportError repr_e, SleepDone, ConnectOk])
         = effects st @ [LogAlert (''INFO: reconnecting after error: '' @ repr_e)]"
  using assms
  by (auto simp: run_def step_def on_transport_error_def log_alert_def)

theorem reconnect_keeps_metrics_witness:
  "(phase (run sample_loads (init_state False 0) [ConnectOk, Line line_ann]) = Streaming
      \<or> phase (run sample_loads (init_state False 0) [ConnectOk, Line line_ann]) = Connecting)
   \<and> phase (run sample_loads (run sample_loads (init_state False 0) [ConnectOk, Line line_ann])
        [TransportError ''ConnectionError()'', SleepDone, ConnectOk]) = Streaming
   \<and> metrics (run sample_loads (run sample_loads (init_state False 0) [ConnectOk, Line line_ann])
        [TransportError ''ConnectionError()'', SleepDone, ConnectOk])
       = metrics (run sample_loads (init_state False 0) [ConnectOk, Line line_ann])
   \<and> map_option total_edits (metrics (run sample_loads (init_state False 0) [ConnectOk, Line line_ann])
        ''Wikipedia'') = Some 1"
proof -
  let ?st = "run sample_loads (init_state False 0) [ConnectOk, Line line_ann]"
  have g: "list_all (good_line sample_loads) [line_ann]" by (simp add: good_ann)
  from init_connected[of sample_loads False 0]
  have p0: "phase (step sample_loads (init_state False 0) ConnectOk) = Streaming"
    and ok0: "metrics_ok (step sample_loads (init_state False 0) ConnectOk)"
    and m0: "metrics (step sample_loads (init_state False 0) ConnectOk) = initial_metrics"
    by simp_all
  from run_good_lines[OF p0 ok0 g, of "''Wikipedia''"]
  have p: "phase ?st = Streaming"
    and c: "map_option total_edits (metrics ?st ''Wikipedia'') = Some 1"
    by (simp_all add: run_Cons m0 initial_metrics_def empty_metrics_def TRACKED_TITLES_def good_ann)
  then have h: "phase ?st = Streaming \<or> phase ?st = Connecting" by simp
  from reconnect_keeps_metrics[OF h, of sample_loads "''ConnectionError()''"] h c
  show ?thesis by blast
qed

text \<open>
  Claim C7, on the code. The test of the flush stands at the end of the loop body,
  after every \<open>continue\<close>: a line that is no \<open>data:\<close> line, or an event of a title
  that is not tracked, leaves the state as it was also when an hour has passed since
  the last flush; no row is appended, no snapshot written and \<open>last_flush\<close> keeps its
  value. An event of a tracked title does flush then (\<open>tracked_line_flushes_when_due\<close>).
\<close>

theorem flush_skipped_on_ignored_line:
  "step jl (st\<lparr>phase := Streaming, last_flush := 0\<rparr>)
       (Line \<lparr>raw_line = ''event: message'', time_ts = 3600, time_now = 3600\<rparr>)
     = st\<lparr>phase := Streaming, last_flush := 0\<rparr>
   \<and> step sample_loads (st\<lparr>phase := Streaming, last_flush := 0\<rparr>) (Line line_other)
     = st\<lparr>phase := Streaming, last_flush := 0\<rparr>
   \<and> time_now line_other - last_flush (st\<lparr>phase := Streaming, last_flush := 0\<rparr>)
       \<ge> FLUSH_EVERY_SECONDS"
proof (intro conjI)
  show "step jl (st\<lparr>phase := Streaming, last_flush := 0\<rparr>)
       (Line \<lparr>raw_line = ''event: message'', time_ts = 3600, time_now = 3600\<rparr>)
     = st\<lparr>phase := Streaming, last_flush := 0\<rparr>"
    by (simp add: step_def process_line_def decode_def)
next
  have "process_line sample_loads (st\<lparr>phase := Streaming, last_flush := 0\<rparr>) line_other
          = Continue (st\<lparr>phase := Streaming, last_flush := 0\<rparr>)"
    by (simp add: process_line_def decode_other handle_event_def dict_get_def TRACKED_TITLES_def)
  then show "step sample_loads (st\<lparr>phase := Streaming, last_flush := 0\<rparr>) (Line line_other)
     = st\<lparr>phase := Streaming, last_flush := 0\<rparr>"
    by (simp add: step_def)
next
  show "time_now line_other - last_flush (st\<lparr>phase := Streaming, last_flush := 0\<rparr>)
       \<ge> FLUSH_EVERY_SECONDS"
    by (simp add: line_other_def FLUSH_EVERY_SECONDS_def)
qed

text \<open>
  Claim C8, on the code. \<open>KeyboardInterrupt\<close> while a line is awaited runs the handler
  that writes the final snapshot and stops. \<open>KeyboardInterrupt\<close> during the sleep
  that follows a transport error is raised inside the other handler: it leaves
  \<open>run_stream\<close> and no snapshot is written after the note of the error.
\<close>

theorem interrupt_in_backoff_skips_snapshot:
  "step jl (step jl (st\<lparr>phase := Streaming\<rparr>) (TransportError repr_e)) Interrupt
     = st\<lparr>phase := Crashed KeyboardInterrupt,
          effects := effects st @ [LogAlert (''INFO: reconnecting after error: '' @ repr_e)]\<rparr>
   \<and> step jl (st\<lparr>phase := Streaming\<rparr>) Interrupt
     = st\<lparr>phase := Stopped,
          effects := effects st @ [WriteSnapshot (metrics st), Print ''Stopped. Snapshot saved.'']\<rparr>"
  by (simp add: step_def on_transport_error_def log_alert_def on_keyboard_interrupt_def
      write_snapshot_def Let_def)

end
